theory Spec2Isabelle
  imports Main "HOL-Library.List_Lexorder"
begin

section \<open>Python strings\<close>

text \<open>
  A Python \<open>str\<close> is a sequence of Unicode code points and \<open>len\<close> counts code points,
  so a string is modelled as the list of its code points. The source contains two
  characters beyond ASCII: the horizontal ellipsis U+2026 and the em dash U+2014.
\<close>

type_synonym pystr = "nat list"

definition ascii :: "string \<Rightarrow> pystr" where
  "ascii s = map of_char s"

definition ellipsis :: nat where
  "ellipsis = 8230"


text \<open>
  \<open>str.isspace\<close> on one code point, which is also the class \<open>\s\<close> of \<open>re\<close> on \<open>str\<close>
  patterns and the set that \<open>strip\<close> and \<open>rstrip\<close> remove: U+0009..U+000D,
  U+001C..U+0020, U+0085, U+00A0, U+1680, U+2000..U+200A, U+2028, U+2029, U+202F,
  U+205F and U+3000.
\<close>

definition isspace :: "nat \<Rightarrow> bool" where
  "isspace c \<longleftrightarrow>
     (9 \<le> c \<and> c \<le> 13) \<or> (28 \<le> c \<and> c \<le> 32) \<or> c = 133 \<or> c = 160 \<or> c = 5760 \<or>
     (8192 \<le> c \<and> c \<le> 8202) \<or> c = 8232 \<or> c = 8233 \<or> c = 8239 \<or> c = 8287 \<or> c = 12288"

definition lstrip :: "pystr \<Rightarrow> pystr" where
  "lstrip s = dropWhile isspace s"

definition rstrip :: "pystr \<Rightarrow> pystr" where
  "rstrip s = rev (dropWhile isspace (rev s))"

definition strip :: "pystr \<Rightarrow> pystr" where
  "strip s = rstrip (lstrip s)"

text \<open>
  \<open>text.rfind(c, start, end)\<close> for a one-character needle and non-negative bounds:
  the highest index \<open>i\<close> with \<open>start \<le> i < min(end, len(text))\<close> holding \<open>c\<close>, and -1
  when there is none.
\<close>

definition rfind :: "pystr \<Rightarrow> nat \<Rightarrow> nat \<Rightarrow> nat \<Rightarrow> int" where
  "rfind text c start end =
     (case filter (\<lambda>i. text ! i = c) (rev [start..<min end (length text)]) of
        [] \<Rightarrow> - 1
      | i # _ \<Rightarrow> int i)"

text \<open>
  The slice \<open>text[:k]\<close>: a negative \<open>k\<close> counts from the end, and both ends are clipped
  to the string.
\<close>

definition slice_to :: "pystr \<Rightarrow> int \<Rightarrow> pystr" where
  "slice_to text k =
     (if k < 0 then take (nat (int (length text) + k)) text else take (nat k) text)"

section \<open>Boundary-aware truncation\<close>

text \<open>
  \<^verbatim>\<open>
  def trim_to_limit(text, limit=280):
      if len(text) <= limit: return text
      cut = text.rfind(" ", 0, max(0, limit-1))
      return (text[:cut] + "...").rstrip() if cut != -1 else (text[:limit-1] + "...").rstrip()
  \<close>
  where \<open>...\<close> stands for the single character U+2026.
\<close>

definition trim_to_limit :: "pystr \<Rightarrow> int \<Rightarrow> pystr" where
  "trim_to_limit text limit =
     (if int (length text) \<le> limit then text
      else
        let cut = rfind text 32 0 (nat (max 0 (limit - 1)))
        in if cut \<noteq> - 1 then rstrip (slice_to text cut @ [ellipsis])
           else rstrip (slice_to text (limit - 1) @ [ellipsis]))"

section \<open>The Unicode character database\<close>

text \<open>
  Lower-casing, the word class \<open>\w\<close> behind \<open>\b\<close>, the digit class \<open>\d\<close>, \<open>str.isdigit\<close>
  and case-insensitive matching consult the Unicode tables of the Python runtime, which
  are not part of the repository. On ASCII they are fixed and written out below; beyond
  ASCII they are a parameter \<open>udb\<close> of the model:
  \<^item> \<open>lower_ext udb s i\<close>: what \<open>s.lower()\<close> puts in place of the non-ASCII character at
    index \<open>i\<close> of \<open>s\<close> (it may depend on the context, as for the capital sigma, and may be
    several characters);
  \<^item> \<open>alnum_ext\<close>, \<open>decimal_ext\<close>, \<open>digit_ext\<close>: \<open>str.isalnum\<close>, \<open>str.isdecimal\<close> and
    \<open>str.isdigit\<close> on a non-ASCII character;
  \<^item> \<open>icase_ext udb c p\<close>: whether the non-ASCII character \<open>c\<close> matches the ASCII pattern
    letter \<open>p\<close> under \<open>re.IGNORECASE\<close>.
\<close>

record unicode_db =
  lower_ext :: "pystr \<Rightarrow> nat \<Rightarrow> pystr"
  alnum_ext :: "nat \<Rightarrow> bool"
  decimal_ext :: "nat \<Rightarrow> bool"
  digit_ext :: "nat \<Rightarrow> bool"
  icase_ext :: "nat \<Rightarrow> nat \<Rightarrow> bool"

text \<open>
  A database in which no character beyond ASCII is a letter or a digit or has a case.
  It agrees with Python on every string over ASCII, the ellipsis and the em dash, and
  is the one the concrete evaluations below use.
\<close>

definition plain_db :: unicode_db where
  "plain_db = \<lparr>lower_ext = (\<lambda>s i. [s ! i]), alnum_ext = (\<lambda>c. False),
     decimal_ext = (\<lambda>c. False), digit_ext = (\<lambda>c. False), icase_ext = (\<lambda>c p. False)\<rparr>"

definition ascii_lower :: "nat \<Rightarrow> nat" where
  "ascii_lower c = (if 65 \<le> c \<and> c \<le> 90 then c + 32 else c)"

definition lower :: "unicode_db \<Rightarrow> pystr \<Rightarrow> pystr" where
  "lower udb s =
     concat (map (\<lambda>i. if s ! i < 128 then [ascii_lower (s ! i)] else lower_ext udb s i)
       [0..<length s])"

definition is_word :: "unicode_db \<Rightarrow> nat \<Rightarrow> bool" where
  "is_word udb c \<longleftrightarrow>
     (if c < 128 then (48 \<le> c \<and> c \<le> 57) \<or> (65 \<le> c \<and> c \<le> 90) \<or> c = 95 \<or> (97 \<le> c \<and> c \<le> 122)
      else alnum_ext udb c)"

definition is_decimal :: "unicode_db \<Rightarrow> nat \<Rightarrow> bool" where
  "is_decimal udb c \<longleftrightarrow> (if c < 128 then 48 \<le> c \<and> c \<le> 57 else decimal_ext udb c)"

definition isdigit :: "unicode_db \<Rightarrow> pystr \<Rightarrow> bool" where
  "isdigit udb s \<longleftrightarrow>
     s \<noteq> [] \<and> list_all (\<lambda>c. if c < 128 then 48 \<le> c \<and> c \<le> 57 else digit_ext udb c) s"

definition icase_eq :: "unicode_db \<Rightarrow> nat \<Rightarrow> nat \<Rightarrow> bool" where
  "icase_eq udb c p \<longleftrightarrow> (if c < 128 then ascii_lower c = ascii_lower p else icase_ext udb c p)"

text \<open>\<open>w in s\<close> for strings: \<open>w\<close> occurs in \<open>s\<close> as a contiguous block.\<close>

primrec contains :: "pystr \<Rightarrow> pystr \<Rightarrow> bool" where
  "contains [] w \<longleftrightarrow> w = []"
| "contains (c # cs) w \<longleftrightarrow> take (length w) (c # cs) = w \<or> contains cs w"

text \<open>
  \<open>str.splitlines\<close>: a line ends at U+000A..U+000D, U+001C..U+001E, U+0085, U+2028 or
  U+2029, the pair CR LF counts as one break, the breaks are dropped, and a final
  break opens no further line.
\<close>

definition is_linebreak :: "nat \<Rightarrow> bool" where
  "is_linebreak c \<longleftrightarrow> (10 \<le> c \<and> c \<le> 13) \<or> (28 \<le> c \<and> c \<le> 30) \<or> c = 133 \<or> c = 8232 \<or> c = 8233"

fun splitlines_from :: "pystr \<Rightarrow> pystr \<Rightarrow> pystr list" where
  "splitlines_from cur [] = (if cur = [] then [] else [cur])"
| "splitlines_from cur (c # cs) =
     (if c = 13 then
        (case cs of
           [] \<Rightarrow> cur # splitlines_from [] cs
         | d # cs' \<Rightarrow> if d = 10 then cur # splitlines_from [] cs' else cur # splitlines_from [] cs)
      else if is_linebreak c then cur # splitlines_from [] cs
      else splitlines_from (cur @ [c]) cs)"

definition splitlines :: "pystr \<Rightarrow> pystr list" where
  "splitlines text = splitlines_from [] text"

text \<open>\<open>sep.join(xs)\<close>.\<close>

fun join :: "pystr \<Rightarrow> pystr list \<Rightarrow> pystr" where
  "join sep [] = []"
| "join sep [x] = x"
| "join sep (x # y # ys) = x @ sep @ join sep (y # ys)"

text \<open>\<open>str(n)\<close> for a non-negative integer.\<close>

fun str_of_nat :: "nat \<Rightarrow> pystr" where
  "str_of_nat n = (if n < 10 then [48 + n] else str_of_nat (n div 10) @ [48 + n mod 10])"

declare str_of_nat.simps [simp del]

section \<open>Regular expressions\<close>

text \<open>
  The fragment of \<open>re\<close> that the patterns of the program use. \<open>Star\<close>, \<open>Plus\<close> and
  \<open>Lazy\<close> repeat one character class (greedy \<open>c*\<close>, greedy \<open>c+\<close>, lazy \<open>c*?\<close>), \<open>LitI\<close> is
  a literal under \<open>re.IGNORECASE\<close>, \<open>WordB\<close> is \<open>\b\<close>, and \<open>Bol\<close> and \<open>Eol\<close> are \<open>^\<close> and \<open>$\<close>
  under \<open>re.MULTILINE\<close>.
\<close>

datatype rx =
    Lit pystr
  | LitI pystr
  | Cls "nat \<Rightarrow> bool"
  | Star "nat \<Rightarrow> bool"
  | Plus "nat \<Rightarrow> bool"
  | Lazy "nat \<Rightarrow> bool"
  | Opt rx
  | Seq rx rx
  | Alt rx rx
  | WordB
  | Bol
  | Eol

text \<open>
  \<open>ends udb r s i\<close> lists the positions at which a match of \<open>r\<close> that starts at
  position \<open>i\<close> of \<open>s\<close> can end, in the order in which the backtracking matcher tries
  them: a greedy repetition offers its longest run first, a lazy one its shortest, an
  alternation its left branch first.
\<close>

definition run_len :: "(nat \<Rightarrow> bool) \<Rightarrow> pystr \<Rightarrow> nat \<Rightarrow> nat" where
  "run_len P s i = length (takeWhile P (drop i s))"

definition word_at :: "unicode_db \<Rightarrow> pystr \<Rightarrow> nat \<Rightarrow> bool" where
  "word_at udb s i \<longleftrightarrow> i < length s \<and> is_word udb (s ! i)"

primrec ends :: "unicode_db \<Rightarrow> rx \<Rightarrow> pystr \<Rightarrow> nat \<Rightarrow> nat list" where
  "ends udb (Lit w) s i = (if take (length w) (drop i s) = w then [i + length w] else [])"
| "ends udb (LitI w) s i =
     (if length w \<le> length s - i \<and> list_all2 (icase_eq udb) (take (length w) (drop i s)) w
      then [i + length w] else [])"
| "ends udb (Cls P) s i = (if i < length s \<and> P (s ! i) then [Suc i] else [])"
| "ends udb (Star P) s i = rev [i..<Suc (i + run_len P s i)]"
| "ends udb (Plus P) s i = rev [Suc i..<Suc (i + run_len P s i)]"
| "ends udb (Lazy P) s i = [i..<Suc (i + run_len P s i)]"
| "ends udb (Opt r) s i = ends udb r s i @ [i]"
| "ends udb (Seq r1 r2) s i = concat (map (ends udb r2 s) (ends udb r1 s i))"
| "ends udb (Alt r1 r2) s i = ends udb r1 s i @ ends udb r2 s i"
| "ends udb WordB s i =
     (if (0 < i \<and> word_at udb s (i - 1)) \<noteq> word_at udb s i then [i] else [])"
| "ends udb Bol s i = (if i = 0 \<or> s ! (i - 1) = 10 then [i] else [])"
| "ends udb Eol s i = (if i = length s \<or> s ! i = 10 then [i] else [])"

fun cat :: "rx list \<Rightarrow> rx" where
  "cat [] = Lit []"
| "cat [r] = r"
| "cat (r # rs) = Seq r (cat rs)"

text \<open>
  The leftmost match at or after \<open>pos\<close>, as \<open>pattern.search(s, pos)\<close> finds it: its start
  and the end the matcher reaches first.
\<close>

definition search_from :: "unicode_db \<Rightarrow> rx \<Rightarrow> pystr \<Rightarrow> nat \<Rightarrow> (nat \<times> nat) option" where
  "search_from udb r s pos =
     (case filter (\<lambda>i. ends udb r s i \<noteq> []) [pos..<Suc (length s)] of
        [] \<Rightarrow> None
      | i # _ \<Rightarrow> Some (i, hd (ends udb r s i)))"

text \<open>The truth value of \<open>re.search(r, s)\<close>.\<close>

definition re_search :: "unicode_db \<Rightarrow> rx \<Rightarrow> pystr \<Rightarrow> bool" where
  "re_search udb r s \<longleftrightarrow> search_from udb r s 0 \<noteq> None"

text \<open>
  The successive non-overlapping matches from \<open>pos\<close> on, left to right. Every pattern of
  the program needs at least one literal character, so no match is empty; the scan
  stops at an empty match instead of modelling what \<open>re\<close> does after one.
\<close>

function spans :: "unicode_db \<Rightarrow> rx \<Rightarrow> pystr \<Rightarrow> nat \<Rightarrow> (nat \<times> nat) list" where
  "spans udb r s pos =
     (case search_from udb r s pos of
        None \<Rightarrow> []
      | Some (i, e) \<Rightarrow> if i < e then (i, e) # spans udb r s e else [])"
  by pat_completeness auto
termination
proof (relation "measure (\<lambda>(udb, r, s, pos). Suc (length s) - pos)")
  show "wf (measure (\<lambda>(udb, r, s, pos). Suc (length s) - pos))" by simp
next
  fix udb :: unicode_db and r s pos x2 i e
  assume a: "search_from udb r s pos = Some x2" "(i, e) = x2" "i < e"
  then obtain rest
    where "filter (\<lambda>i. ends udb r s i \<noteq> []) [pos..<Suc (length s)] = i # rest"
    by (auto simp: search_from_def split: list.splits)
  then have "i \<in> set (filter (\<lambda>i. ends udb r s i \<noteq> []) [pos..<Suc (length s)])"
    by simp
  then have "pos \<le> i \<and> i \<le> length s" by auto
  with a(3) show "((udb, r, s, e), (udb, r, s, pos))
      \<in> measure (\<lambda>(udb, r, s, pos). Suc (length s) - pos)"
    by simp arith
qed

declare spans.simps [simp del]

text \<open>
  \<open>re.split(r, s)\<close> for a pattern without capture groups: the pieces of \<open>s\<close> between
  the successive matches. \<open>re.sub(r, "", s)\<close> joins the same pieces.
\<close>

fun pieces :: "pystr \<Rightarrow> nat \<Rightarrow> (nat \<times> nat) list \<Rightarrow> pystr list" where
  "pieces s pos [] = [drop pos s]"
| "pieces s pos ((i, e) # ms) = take (i - pos) (drop pos s) # pieces s e ms"

definition re_split :: "unicode_db \<Rightarrow> rx \<Rightarrow> pystr \<Rightarrow> pystr list" where
  "re_split udb r s = pieces s 0 (spans udb r s 0)"


section \<open>Guardrails\<close>





text \<open>
  \<^verbatim>\<open>
  def split_posts(text: str):
      lines = [ln.strip() for ln in text.splitlines() if ln.strip()]
      if len(lines) >= 3:
          return lines
      parts = re.split(r"(?:^\s*\d+[\).\-]\s*|\n\s*\d+[\).\-]\s*)", text, flags=re.MULTILINE)
      posts = [s.strip() for s in parts if s and not s.strip().isdigit()]
      return [p for p in posts if p]
  \<close>
\<close>

definition numbering_re :: "unicode_db \<Rightarrow> rx" where
  "numbering_re udb =
     Alt (cat [Bol, Star isspace, Plus (is_decimal udb), Cls (\<lambda>c. c \<in> set (ascii '').-'')),
            Star isspace])
         (cat [Lit [10], Star isspace, Plus (is_decimal udb), Cls (\<lambda>c. c \<in> set (ascii '').-'')),
            Star isspace])"

definition stripped_lines :: "pystr \<Rightarrow> pystr list" where
  "stripped_lines text = map strip (filter (\<lambda>ln. strip ln \<noteq> []) (splitlines text))"

definition split_posts :: "unicode_db \<Rightarrow> pystr \<Rightarrow> pystr list" where
  "split_posts udb text =
     (let lines = stripped_lines text in
      if 3 \<le> length lines then lines
      else
        let parts = re_split udb (numbering_re udb) text;
            posts = map strip (filter (\<lambda>s. s \<noteq> [] \<and> \<not> isdigit udb (strip s)) parts)
        in filter (\<lambda>p. p \<noteq> []) posts)"

text \<open>
  \<^verbatim>\<open>
  def enforce_three(posts):
      posts = [p for p in posts if p]
      if len(posts) > 3: posts = posts[:3]
      while len(posts) < 3:
          posts.append("Join our mailing list for updates: https://trieboldinstitute.org/join")
      return posts
  \<close>
\<close>

definition fallback_post :: pystr where
  "fallback_post = ascii ''Join our mailing list for updates: https://trieboldinstitute.org/join''"

function pad_three :: "pystr list \<Rightarrow> pystr list" where
  "pad_three posts = (if length posts < 3 then pad_three (posts @ [fallback_post]) else posts)"
  by pat_completeness auto
termination
  by (relation "measure (\<lambda>posts. 3 - length posts)") auto

declare pad_three.simps [simp del]

definition enforce_three :: "pystr list \<Rightarrow> pystr list" where
  "enforce_three posts =
     (let posts1 = filter (\<lambda>p. p \<noteq> []) posts;
          posts2 = (if 3 < length posts1 then take 3 posts1 else posts1)
      in pad_three posts2)"

text \<open>
  \<^verbatim>\<open>
  def has_cta(p: str) -> bool:
      s = p.lower()
      if "trieboldinstitute.org/join" in s: return True
      if re.search(r"\bjoin\b.*\bmail(ing)?\s*list\b", s): return True
      if re.search(r"\b(sign\s*up|subscribe)\b", s): return True
      return False
  \<close>
\<close>

definition join_list_re :: rx where
  "join_list_re = cat [WordB, Lit (ascii ''join''), WordB, Star (\<lambda>c. c \<noteq> 10), WordB,
     Lit (ascii ''mail''), Opt (Lit (ascii ''ing'')), Star isspace, Lit (ascii ''list''), WordB]"

definition signup_re :: rx where
  "signup_re = cat [WordB,
     Alt (cat [Lit (ascii ''sign''), Star isspace, Lit (ascii ''up'')]) (Lit (ascii ''subscribe'')),
     WordB]"

definition has_cta :: "unicode_db \<Rightarrow> pystr \<Rightarrow> bool" where
  "has_cta udb p =
     (let s = lower udb p in
      if contains s (ascii ''trieboldinstitute.org/join'') then True
      else if re_search udb join_list_re s then True
      else if re_search udb signup_re s then True
      else False)"





section \<open>Critic and reviser\<close>

text \<open>
  \<^verbatim>\<open>
  def role_critic(deliverable: str):
      posts = split_posts(deliverable)
      posts = enforce_three(posts)
      ok_len = all(len(p) <= 280 for p in posts)
      ok_cta = all(has_cta(p) for p in posts)
      ok_cnt = (len(posts) == 3)
      ok = ok_len and ok_cta and ok_cnt
      feedback = []
      if not ok_cnt: feedback.append(f"Expected 3 posts; got {len(posts)}.")
      if not ok_len: feedback.append("One or more posts exceed 280 chars.")
      if not ok_cta: feedback.append("Each post must include a clear CTA (Join/Sign up/Subscribe or /join link).")
      return ok, feedback, posts
  \<close>
\<close>

definition count_feedback :: "nat \<Rightarrow> pystr" where
  "count_feedback n = ascii ''Expected 3 posts; got '' @ str_of_nat n @ ascii ''.''"

definition length_feedback :: pystr where
  "length_feedback = ascii ''One or more posts exceed 280 chars.''"

definition cta_feedback :: pystr where
  "cta_feedback =
     ascii ''Each post must include a clear CTA (Join/Sign up/Subscribe or /join link).''"

definition role_critic :: "unicode_db \<Rightarrow> pystr \<Rightarrow> bool \<times> pystr list \<times> pystr list" where
  "role_critic udb deliverable =
     (let posts = enforce_three (split_posts udb deliverable);
          ok_len = list_all (\<lambda>p. length p \<le> 280) posts;
          ok_cta = list_all (has_cta udb) posts;
          ok_cnt = (length posts = 3);
          ok = (ok_len \<and> ok_cta \<and> ok_cnt);
          feedback = (if \<not> ok_cnt then [count_feedback (length posts)] else []) @
                     (if \<not> ok_len then [length_feedback] else []) @
                     (if \<not> ok_cta then [cta_feedback] else [])
      in (ok, feedback, posts))"




text \<open>
  The truncation rule in the words of the specification, to compare with
  \<open>trim_to_limit\<close>: a text within the limit is unchanged; otherwise the last whitespace
  character at or before position \<open>limit - 1\<close> is looked for; if there is one, the text
  is cut there and a single ellipsis is appended, right-trimming trailing whitespace;
  if there is none, the text is cut at \<open>limit - 1\<close> and the ellipsis is appended.
\<close>

definition spec_trim_to_limit :: "pystr \<Rightarrow> int \<Rightarrow> pystr" where
  "spec_trim_to_limit text limit =
     (if int (length text) \<le> limit then text
      else
        case filter (\<lambda>i. isspace (text ! i)) (rev [0..<min (nat limit) (length text)]) of
          [] \<Rightarrow> take (nat (limit - 1)) text @ [ellipsis]
        | k # _ \<Rightarrow> rstrip (take k text @ [ellipsis]))"

section \<open>The completion client\<close>

text \<open>
  The decoded body of a response. A number is kept as its literal text: the client never
  computes with one.
\<close>

datatype json =
    JNull
  | JBool bool
  | JNum pystr
  | JStr pystr
  | JArr "json list"
  | JObj "(pystr \<times> json) list"
















section \<open>The queue processor\<close>

text \<open>
  What \<open>run_queue\<close> reads off one line of the tasks file: \<open>json.loads\<close> raises
  (\<open>InvalidJson\<close>), or the value is not an object whose \<open>goal\<close> is a string, so that
  \<open>task.get\<close> or \<open>.strip()\<close> raises (\<open>Malformed\<close>), or it is a record, with the values of
  \<open>task.get("id")\<close> and \<open>task.get("goal")\<close> (\<open>None\<close> when the key is absent or null). Ids
  are strings. The decoder and the fingerprint \<open>task_id_for\<close> (twelve hexadecimal digits
  of a SHA-1) are library code and parameters of the model.
\<close>

datatype parsed = InvalidJson | Malformed | Task "pystr option" "pystr option"

record world =
  loads :: "pystr \<Rightarrow> parsed"
  task_id_for :: "pystr \<Rightarrow> pystr"

text \<open>
  How the three steps of one task end: \<open>checkout_task_branch\<close>, \<open>run_pipeline\<close> and
  \<open>commit_artifacts\<close> each return or raise.
\<close>

datatype step = Completed | CheckoutRaises | PipelineRaises | CommitRaises

datatype queue_event = Checkout pystr | RunPipeline pystr | Commit pystr

datatype queue_error = MalformedRecord | CheckoutFailed | PipelineFailed | CommitFailed

text \<open>
  The loop over the lines of the tasks file; \<open>run n goal\<close> is how the task read from
  line \<open>n\<close> ends when it is executed.
  \<^verbatim>\<open>
  for line in f:
      line = line.strip()
      if not line: continue
      try: task = json.loads(line)
      except Exception: print(...); continue
      goal = (task.get("goal") or "").strip()
      if not goal: print(...); continue
      tid = task.get("id") or task_id_for(goal)
      if tid in processed: print(...); continue
      branch = checkout_task_branch(goal)
      out_path, log_path = run_pipeline(goal)
      commit_artifacts(goal, out_path, log_path)
      processed.add(tid)
  \<close>
\<close>

fun drain ::
  "world \<Rightarrow> (nat \<Rightarrow> pystr \<Rightarrow> step) \<Rightarrow> nat \<Rightarrow> pystr list \<Rightarrow> pystr set \<Rightarrow>
     queue_event list \<times> (queue_error + pystr set)" where
  "drain w run n [] processed = ([], Inr processed)"
| "drain w run n (line # rest) processed =
     (if strip line = [] then drain w run (Suc n) rest processed
      else
        case loads w (strip line) of
          InvalidJson \<Rightarrow> drain w run (Suc n) rest processed
        | Malformed \<Rightarrow> ([], Inl MalformedRecord)
        | Task id_value goal_value \<Rightarrow>
            let goal = strip (case goal_value of None \<Rightarrow> [] | Some g \<Rightarrow> g) in
            if goal = [] then drain w run (Suc n) rest processed
            else
              let tid = (case id_value of
                           None \<Rightarrow> task_id_for w goal
                         | Some i \<Rightarrow> if i = [] then task_id_for w goal else i)
              in
                if tid \<in> processed then drain w run (Suc n) rest processed
                else
                  case run n goal of
                    CheckoutRaises \<Rightarrow> ([Checkout goal], Inl CheckoutFailed)
                  | PipelineRaises \<Rightarrow> ([Checkout goal, RunPipeline goal], Inl PipelineFailed)
                  | CommitRaises \<Rightarrow>
                      ([Checkout goal, RunPipeline goal, Commit goal], Inl CommitFailed)
                  | Completed \<Rightarrow>
                      (case drain w run (Suc n) rest (insert tid processed) of
                         (events, r) \<Rightarrow>
                           (Checkout goal # RunPipeline goal # Commit goal # events, r)))"

text \<open>
  \<^verbatim>\<open>
  def run_queue():
      state = load_state(); processed = set(state.get("processed", []))
      if not TASKS_F.exists(): print(...); return
      with TASKS_F.open("r", encoding="utf-8") as f:
          for line in f: ...
      state["processed"] = sorted(processed); save_state(state)
  \<close>
  The state file is the list under its key \<open>processed\<close> (\<open>None\<close> when the file is absent
  or unreadable), the tasks file the list of its lines (\<open>None\<close> when absent). The result
  is the trace of the run and either the error that ended it, the state file being
  left as it was, or the state file at the end.
\<close>

definition run_queue ::
  "world \<Rightarrow> (nat \<Rightarrow> pystr \<Rightarrow> step) \<Rightarrow> pystr list option \<Rightarrow> pystr list option \<Rightarrow>
     queue_event list \<times> (queue_error + pystr list option)" where
  "run_queue w run state_file tasks_file =
     (let processed = set (case state_file of None \<Rightarrow> [] | Some ids \<Rightarrow> ids) in
      case tasks_file of
        None \<Rightarrow> ([], Inr state_file)
      | Some lines \<Rightarrow>
          (case drain w run 0 lines processed of
             (events, Inl e) \<Rightarrow> (events, Inl e)
           | (events, Inr processed') \<Rightarrow> (events, Inr (Some (sorted_list_of_set processed')))))"

text \<open>
  A decoder and a fingerprint for the concrete runs below: a line is taken as a record
  without id whose goal is the line itself, and the fingerprint of a goal is the goal.
\<close>

definition demo_world :: world where
  "demo_world = \<lparr>loads = (\<lambda>line. Task None (Some line)), task_id_for = (\<lambda>goal. goal)\<rparr>"

definition all_complete :: "nat \<Rightarrow> pystr \<Rightarrow> step" where
  "all_complete n goal = Completed"

section \<open>Properties of the truncation\<close>

lemma rstrip_ellipsis: "rstrip (xs @ [ellipsis]) = xs @ [ellipsis]"
  by (simp add: rstrip_def isspace_def ellipsis_def)

lemma last_hit_cases:
  "(case filter P (rev [0..<m]) of [] \<Rightarrow> - 1 | i # _ \<Rightarrow> int i) = r \<Longrightarrow>
   (r = - 1 \<and> (\<forall>i<m. \<not> P i)) \<or>
   (\<exists>i<m. r = int i \<and> P i \<and> (\<forall>j. i < j \<and> j < m \<longrightarrow> \<not> P j))"
proof (induction m arbitrary: r)
  case 0
  then show ?case by simp
next
  case (Suc m)
  show ?case
  proof (cases "P m")
    case True
    with Suc.prems have "r = int m" by simp
    with True show ?thesis by auto
  next
    case False
    with Suc.prems have "(case filter P (rev [0..<m]) of [] \<Rightarrow> - 1 | i # _ \<Rightarrow> int i) = r"
      by simp
    from Suc.IH[OF this] False show ?thesis
      by (metis less_Suc_eq)
  qed
qed

lemma rfind_cases:
  "(rfind text c 0 e = - 1 \<and> (\<forall>i < min e (length text). text ! i \<noteq> c)) \<or>
   (\<exists>i < min e (length text). rfind text c 0 e = int i \<and> text ! i = c \<and>
      (\<forall>j. i < j \<and> j < min e (length text) \<longrightarrow> text ! j \<noteq> c))"
  using last_hit_cases[of "\<lambda>i. text ! i = c" "min e (length text)" "rfind text c 0 e"]
  by (simp add: rfind_def)

lemma trim_to_limit_shape:
  assumes "limit < int (length text)"
  shows "(\<exists>k < nat (limit - 1). text ! k = 32 \<and>
            (\<forall>j. k < j \<and> j < nat (limit - 1) \<longrightarrow> text ! j \<noteq> 32) \<and>
            trim_to_limit text limit = take k text @ [ellipsis]) \<or>
         ((\<forall>j < nat (limit - 1). text ! j \<noteq> 32) \<and>
            trim_to_limit text limit = slice_to text (limit - 1) @ [ellipsis])"
proof -
  define e where "e = nat (max 0 (limit - 1))"
  have e: "e = nat (limit - 1)" "min e (length text) = nat (limit - 1)"
    using assms by (auto simp: e_def)
  have t: "trim_to_limit text limit =
      (if rfind text 32 0 e \<noteq> - 1 then slice_to text (rfind text 32 0 e) @ [ellipsis]
       else slice_to text (limit - 1) @ [ellipsis])"
    using assms by (simp add: trim_to_limit_def rstrip_ellipsis Let_def e_def)
  from rfind_cases[of "text" 32 e] show ?thesis
  proof
    assume "rfind text 32 0 e = - 1 \<and> (\<forall>i<min e (length text). text ! i \<noteq> 32)"
    with t e show ?thesis by simp
  next
    assume "\<exists>i<min e (length text). rfind text 32 0 e = int i \<and> text ! i = 32 \<and>
      (\<forall>j. i < j \<and> j < min e (length text) \<longrightarrow> text ! j \<noteq> 32)"
    then obtain i where i: "i < nat (limit - 1)" "rfind text 32 0 e = int i" "text ! i = 32"
      "\<forall>j. i < j \<and> j < nat (limit - 1) \<longrightarrow> text ! j \<noteq> 32"
      using e by auto
    from i(2) t have "trim_to_limit text limit = take i text @ [ellipsis]"
      by (simp add: slice_to_def)
    with i show ?thesis by blast
  qed
qed

lemma trim_to_limit_length:
  assumes "1 \<le> limit"
  shows "int (length (trim_to_limit text limit)) \<le> limit"
proof (cases "int (length text) \<le> limit")
  case True
  then show ?thesis by (simp add: trim_to_limit_def)
next
  case False
  then have long: "limit < int (length text)" by simp
  from trim_to_limit_shape[OF long] long assms show ?thesis
    by (auto simp: slice_to_def)
qed


section \<open>Properties of the splitter and the critic\<close>

lemma stripped_lines_nonempty: "[] \<notin> set (stripped_lines text)"
  by (auto simp: stripped_lines_def)

lemma split_posts_nonempty: "[] \<notin> set (split_posts udb text)"
  using stripped_lines_nonempty[of "text"]
  by (auto simp: split_posts_def Let_def)

lemma split_posts_primary:
  "3 \<le> length (stripped_lines text) \<Longrightarrow> split_posts udb text = stripped_lines text"
  by (simp add: split_posts_def)

lemma pad_three_eq: "pad_three posts = posts @ replicate (3 - length posts) fallback_post"
proof (induction posts rule: pad_three.induct)
  case (1 posts)
  show ?case
  proof (cases "length posts < 3")
    case True
    then have "pad_three posts = pad_three (posts @ [fallback_post])"
      by (subst pad_three.simps) simp
    also have "\<dots> = (posts @ [fallback_post]) @
        replicate (3 - length (posts @ [fallback_post])) fallback_post"
      using "1.IH"[OF True] .
    also have "\<dots> = posts @ replicate (Suc (3 - Suc (length posts))) fallback_post"
      by simp
    also have "Suc (3 - Suc (length posts)) = 3 - length posts"
      using True by simp
    finally show ?thesis .
  next
    case False
    then show ?thesis by (subst pad_three.simps) simp
  qed
qed

lemma enforce_three_eq:
  "[] \<notin> set posts \<Longrightarrow>
   enforce_three posts =
     (if 3 < length posts then take 3 posts
      else posts @ replicate (3 - length posts) fallback_post)"
proof -
  assume "[] \<notin> set posts"
  then have "filter (\<lambda>p. p \<noteq> []) posts = posts"
    by (induction posts) auto
  then show ?thesis
    by (simp add: enforce_three_def pad_three_eq Let_def)
qed

lemma enforce_three_length: "length (enforce_three posts) = 3"
  by (simp add: enforce_three_def pad_three_eq Let_def)

lemma critic_posts: "snd (snd (role_critic udb d)) = enforce_three (split_posts udb d)"
  by (simp add: role_critic_def Let_def)

lemma critic_ok:
  "fst (role_critic udb d) \<longleftrightarrow>
     list_all (\<lambda>p. length p \<le> 280) (enforce_three (split_posts udb d)) \<and>
     list_all (has_cta udb) (enforce_three (split_posts udb d))"
  by (simp add: role_critic_def Let_def enforce_three_length)

lemma critic_feedback:
  "fst (snd (role_critic udb d)) =
     (if \<not> list_all (\<lambda>p. length p \<le> 280) (enforce_three (split_posts udb d))
      then [length_feedback] else []) @
     (if \<not> list_all (has_cta udb) (enforce_three (split_posts udb d))
      then [cta_feedback] else [])"
  by (simp add: role_critic_def Let_def enforce_three_length)

lemma count_feedback_distinct:
  "count_feedback n \<noteq> length_feedback" "count_feedback n \<noteq> cta_feedback"
  by (simp_all add: count_feedback_def length_feedback_def cta_feedback_def ascii_def)

section \<open>Properties of the matcher\<close>










section \<open>Properties of the reviser\<close>














section \<open>Properties of the completion client\<close>






section \<open>Properties of the queue processor\<close>

lemma drain_finite:
  "drain w run n lines processed = (events, Inr processed') \<Longrightarrow> finite processed \<Longrightarrow>
   finite processed'"
proof (induction lines arbitrary: n processed events)
  case Nil
  then show ?case by simp
next
  case (Cons line rest)
  then show ?case
    by (auto simp: Let_def split: if_splits parsed.splits step.splits prod.splits)
qed

lemma drain_rerun:
  "drain w run n lines processed = (events, Inr processed') \<Longrightarrow>
   processed \<subseteq> processed' \<and>
   (\<forall>Q m. processed' \<subseteq> Q \<longrightarrow> drain w run' m lines Q = ([], Inr Q))"
proof (induction lines arbitrary: n processed events)
  case Nil
  then show ?case by simp
next
  case (Cons line rest)
  show ?case
  proof (cases "strip line = []")
    case True
    with Cons.prems have "drain w run (Suc n) rest processed = (events, Inr processed')"
      by simp
    from Cons.IH[OF this] True show ?thesis by simp
  next
    case nonblank: False
    show ?thesis
    proof (cases "loads w (strip line)")
      case InvalidJson
      with Cons.prems nonblank
      have "drain w run (Suc n) rest processed = (events, Inr processed')" by simp
      from Cons.IH[OF this] nonblank InvalidJson show ?thesis by simp
    next
      case Malformed
      with Cons.prems nonblank show ?thesis by simp
    next
      case (Task id_value goal_value)
      define goal where "goal = strip (case goal_value of None \<Rightarrow> [] | Some g \<Rightarrow> g)"
      define tid where "tid = (case id_value of None \<Rightarrow> task_id_for w goal
         | Some i \<Rightarrow> if i = [] then task_id_for w goal else i)"
      have step: "drain w r k (line # rest) P =
        (if goal = [] then drain w r (Suc k) rest P
         else if tid \<in> P then drain w r (Suc k) rest P
         else case r k goal of
                CheckoutRaises \<Rightarrow> ([Checkout goal], Inl CheckoutFailed)
              | PipelineRaises \<Rightarrow> ([Checkout goal, RunPipeline goal], Inl PipelineFailed)
              | CommitRaises \<Rightarrow>
                  ([Checkout goal, RunPipeline goal, Commit goal], Inl CommitFailed)
              | Completed \<Rightarrow>
                  (case drain w r (Suc k) rest (insert tid P) of
                     (events, res) \<Rightarrow>
                       (Checkout goal # RunPipeline goal # Commit goal # events, res)))"
        for r k P
        unfolding goal_def tid_def using nonblank Task by (simp add: Let_def)
      note prem = Cons.prems[unfolded step]
      show ?thesis
      proof (cases "goal = [] \<or> tid \<in> processed")
        case True
        with prem
        have "drain w run (Suc n) rest processed = (events, Inr processed')"
          by (auto split: if_splits)
        from Cons.IH[OF this] have ih: "processed \<subseteq> processed'"
          "\<And>Q m. processed' \<subseteq> Q \<Longrightarrow> drain w run' m rest Q = ([], Inr Q)" by blast+
        have "drain w run' m (line # rest) Q = ([], Inr Q)" if "processed' \<subseteq> Q" for Q m
          using True ih that by (subst step) auto
        with ih(1) show ?thesis by blast
      next
        case False
        with prem obtain events' where
          "drain w run (Suc n) rest (insert tid processed) = (events', Inr processed')"
          by (auto split: if_splits step.splits prod.splits)
        from Cons.IH[OF this] have ih: "insert tid processed \<subseteq> processed'"
          "\<And>Q m. processed' \<subseteq> Q \<Longrightarrow> drain w run' m rest Q = ([], Inr Q)" by blast+
        have "drain w run' m (line # rest) Q = ([], Inr Q)" if "processed' \<subseteq> Q" for Q m
          using ih that by (subst step) auto
        with ih(1) show ?thesis by blast
      qed
    qed
  qed
qed

section \<open>Lemmas for concrete runs\<close>





lemma seq_fails_left: "\<forall>j. ends udb r1 s j = [] \<Longrightarrow> ends udb (Seq r1 r2) s i = []"
  by simp

lemma seq_fails_right: "\<forall>j. ends udb r2 s j = [] \<Longrightarrow> ends udb (Seq r1 r2) s i = []"
  by simp





lemma link_line_cta: "has_cta plain_db (ascii ''trieboldinstitute.org/join'')"
  by (simp add: has_cta_def lower_def plain_db_def ascii_def ascii_lower_def)

lemma three_link_lines:
  "stripped_lines (ascii ''trieboldinstitute.org/join'' @ [10] @
     ascii ''trieboldinstitute.org/join'' @ [10] @ ascii ''trieboldinstitute.org/join'') =
   [ascii ''trieboldinstitute.org/join'', ascii ''trieboldinstitute.org/join'',
    ascii ''trieboldinstitute.org/join'']"
  by (simp add: stripped_lines_def splitlines_def ascii_def is_linebreak_def strip_def
      lstrip_def rstrip_def isspace_def)

section \<open>The claims\<close>

text \<open>
  C1. A deliverable whose lines, trimmed and with the empty ones dropped, are exactly
  three, each of at most 280 characters and each recognised by \<open>has_cta\<close>, is accepted
  by \<open>role_critic\<close>: ok is true, the feedback is empty and the posts are those three
  lines.
\<close>

theorem critic_accepts_three_valid_lines:
  assumes "stripped_lines deliverable = [a, b, c]"
    and "length a \<le> 280" "length b \<le> 280" "length c \<le> 280"
    and "has_cta udb a" "has_cta udb b" "has_cta udb c"
  shows "role_critic udb deliverable = (True, [], [a, b, c])"
proof -
  have sp: "split_posts udb deliverable = [a, b, c]"
    using assms(1) by (simp add: split_posts_primary)
  have "[] \<notin> set [a, b, c]"
    using stripped_lines_nonempty[of deliverable] assms(1) by simp
  then have "enforce_three [a, b, c] = [a, b, c]"
    by (simp add: enforce_three_eq)
  with sp assms(2-) show ?thesis
    by (simp add: role_critic_def Let_def)
qed

theorem critic_accepts_three_valid_lines_witness:
  "stripped_lines (ascii ''trieboldinstitute.org/join'' @ [10] @ ascii ''trieboldinstitute.org/join'' @ [10] @ ascii ''trieboldinstitute.org/join'') = [ascii ''trieboldinstitute.org/join'', ascii ''trieboldinstitute.org/join'', ascii ''trieboldinstitute.org/join''] \<and>
   length (ascii ''trieboldinstitute.org/join'') \<le> 280 \<and> has_cta plain_db (ascii ''trieboldinstitute.org/join'') \<and>
   role_critic plain_db (ascii ''trieboldinstitute.org/join'' @ [10] @ ascii ''trieboldinstitute.org/join'' @ [10] @ ascii ''trieboldinstitute.org/join'') = (True, [], [ascii ''trieboldinstitute.org/join'', ascii ''trieboldinstitute.org/join'', ascii ''trieboldinstitute.org/join''])"
proof -
  have len: "length (ascii ''trieboldinstitute.org/join'') \<le> 280" by (simp add: ascii_def)
  from critic_accepts_three_valid_lines[OF three_link_lines len len len
      link_line_cta link_line_cta link_line_cta]
    three_link_lines len link_line_cta
  show ?thesis by blast
qed



text \<open>
  C3, as stated, fails: the claim is made for every limit, and with limit 0 the
  one-character text \<open>a\<close> is turned into the ellipsis alone, of length 1. (The slice
  \<open>text[:limit-1]\<close> is \<open>text[:-1]\<close> there, and no string has a negative length.)
\<close>

theorem trim_to_limit_exceeds_limit_zero:
  "trim_to_limit (ascii ''a'') 0 = [ellipsis] \<and>
   \<not> int (length (trim_to_limit (ascii ''a'') 0)) \<le> 0"
  by (simp add: trim_to_limit_def ascii_def rfind_def slice_to_def rstrip_def isspace_def
      ellipsis_def)

text \<open>
  C3, amended. For every text and every limit of at least 1, the result of
  \<open>trim_to_limit\<close> has at most \<open>limit\<close> characters.
\<close>

theorem trim_to_limit_within_limit:
  "1 \<le> limit \<Longrightarrow> int (length (trim_to_limit text limit)) \<le> limit"
  by (rule trim_to_limit_length)

theorem trim_to_limit_within_limit_witness:
  "(1::int) \<le> 10 \<and> int (length (trim_to_limit (ascii ''aaaa bbbbbbbbbb'') 10)) \<le> 10"
  using trim_to_limit_within_limit[of 10 "ascii ''aaaa bbbbbbbbbb''"] by simp

text \<open>
  C4. The critic brings the list of candidates that \<open>split_posts\<close> returns to exactly
  three posts before it checks anything: of more than three it keeps the first three,
  fewer than three it fills up with the fallback post, so the posts of the verdict are
  always three, and the verdict is computed over them.
\<close>

theorem critic_normalizes_to_three:
  "(3 < length (split_posts udb d) \<longrightarrow>
      snd (snd (role_critic udb d)) = take 3 (split_posts udb d)) \<and>
   (length (split_posts udb d) < 3 \<longrightarrow>
      snd (snd (role_critic udb d)) =
        split_posts udb d @ replicate (3 - length (split_posts udb d)) fallback_post) \<and>
   (length (split_posts udb d) = 3 \<longrightarrow> snd (snd (role_critic udb d)) = split_posts udb d) \<and>
   length (snd (snd (role_critic udb d))) = 3 \<and>
   (fst (role_critic udb d) \<longleftrightarrow>
      list_all (\<lambda>p. length p \<le> 280) (snd (snd (role_critic udb d))) \<and>
      list_all (has_cta udb) (snd (snd (role_critic udb d))))"
  using split_posts_nonempty[of udb d]
  by (simp add: critic_posts critic_ok enforce_three_eq enforce_three_length)

theorem critic_normalizes_to_three_witness:
  "3 < length (split_posts plain_db (ascii ''a'' @ [10] @ ascii ''b'' @ [10] @ ascii ''c'' @
       [10] @ ascii ''d'')) \<and>
   snd (snd (role_critic plain_db (ascii ''a'' @ [10] @ ascii ''b'' @ [10] @ ascii ''c'' @
       [10] @ ascii ''d''))) = [ascii ''a'', ascii ''b'', ascii ''c'']"
proof -
  let ?d = "ascii ''a'' @ [10] @ ascii ''b'' @ [10] @ ascii ''c'' @ [10] @ ascii ''d''"
  have l: "stripped_lines ?d = [ascii ''a'', ascii ''b'', ascii ''c'', ascii ''d'']"
    by (simp add: stripped_lines_def splitlines_def ascii_def is_linebreak_def strip_def
        lstrip_def rstrip_def isspace_def)
  then have s: "split_posts plain_db ?d = [ascii ''a'', ascii ''b'', ascii ''c'', ascii ''d'']"
    by (simp add: split_posts_primary)
  with critic_normalizes_to_three[of plain_db ?d] show ?thesis by simp
qed



text \<open>
  C6, as stated, fails. The specification cuts at the last whitespace character at or
  before position \<open>limit - 1\<close>; the code looks for the space U+0020 only, and only
  below position \<open>limit - 1\<close>. On \<open>aaaa bbbb cccc\<close> with limit 10 there is a space at
  position 9: the specification's rule keeps \<open>aaaa bbbb\<close> and the ellipsis, the code
  keeps \<open>aaaa\<close> and the ellipsis.
\<close>

theorem trim_to_limit_differs_from_spec:
  "trim_to_limit (ascii ''aaaa bbbb cccc'') 10 = ascii ''aaaa'' @ [ellipsis] \<and>
   spec_trim_to_limit (ascii ''aaaa bbbb cccc'') 10 = ascii ''aaaa bbbb'' @ [ellipsis] \<and>
   trim_to_limit (ascii ''aaaa bbbb cccc'') 10 \<noteq> spec_trim_to_limit (ascii ''aaaa bbbb cccc'') 10"
  by (simp add: trim_to_limit_def spec_trim_to_limit_def ascii_def rfind_def slice_to_def
      rstrip_def isspace_def ellipsis_def)

text \<open>
  C6, amended. For a text longer than the limit, \<open>trim_to_limit\<close> looks for the last
  space (U+0020) strictly before position \<open>limit - 1\<close>. When there is one, at position
  \<open>k\<close>, the result is the first \<open>k\<close> characters with a single ellipsis appended,
  right-trimmed. When there is none, the result is the slice \<open>text[:limit-1]\<close> with the
  ellipsis appended, right-trimmed. For \<open>aaaa bbbbbbbbbb\<close> and limit 10 the result is
  \<open>aaaa\<close> and the ellipsis: it ends at the space, not inside a word.
\<close>

theorem trim_to_limit_cuts:
  assumes "limit < int (length text)"
  shows "(\<forall>k. k < nat (limit - 1) \<and> text ! k = 32 \<and>
             (\<forall>j. k < j \<and> j < nat (limit - 1) \<longrightarrow> text ! j \<noteq> 32) \<longrightarrow>
           trim_to_limit text limit = rstrip (take k text @ [ellipsis])) \<and>
         ((\<forall>j < nat (limit - 1). text ! j \<noteq> 32) \<longrightarrow>
           trim_to_limit text limit = rstrip (slice_to text (limit - 1) @ [ellipsis])) \<and>
         trim_to_limit (ascii ''aaaa bbbbbbbbbb'') 10 = ascii ''aaaa'' @ [ellipsis]"
proof (intro conjI allI impI)
  fix k
  assume k: "k < nat (limit - 1) \<and> text ! k = 32 \<and>
             (\<forall>j. k < j \<and> j < nat (limit - 1) \<longrightarrow> text ! j \<noteq> 32)"
  from trim_to_limit_shape[OF assms]
  show "trim_to_limit text limit = rstrip (take k text @ [ellipsis])"
  proof
    assume "\<exists>k' < nat (limit - 1). text ! k' = 32 \<and>
            (\<forall>j. k' < j \<and> j < nat (limit - 1) \<longrightarrow> text ! j \<noteq> 32) \<and>
            trim_to_limit text limit = take k' text @ [ellipsis]"
    then obtain k' where k': "k' < nat (limit - 1)" "text ! k' = 32"
      "\<forall>j. k' < j \<and> j < nat (limit - 1) \<longrightarrow> text ! j \<noteq> 32"
      "trim_to_limit text limit = take k' text @ [ellipsis]" by blast
    have "k' = k" using k k'(1,2,3) by (metis linorder_neqE_nat)
    with k'(4) show ?thesis by (simp add: rstrip_ellipsis)
  next
    assume "(\<forall>j < nat (limit - 1). text ! j \<noteq> 32) \<and>
            trim_to_limit text limit = slice_to text (limit - 1) @ [ellipsis]"
    with k show ?thesis by blast
  qed
next
  assume h: "\<forall>j < nat (limit - 1). text ! j \<noteq> 32"
  from trim_to_limit_shape[OF assms] h
  show "trim_to_limit text limit = rstrip (slice_to text (limit - 1) @ [ellipsis])"
    by (auto simp: rstrip_ellipsis)
next
  show "trim_to_limit (ascii ''aaaa bbbbbbbbbb'') 10 = ascii ''aaaa'' @ [ellipsis]"
    by (simp add: trim_to_limit_def ascii_def rfind_def slice_to_def rstrip_def isspace_def
        ellipsis_def)
qed

theorem trim_to_limit_cuts_witness:
  "(10::int) < int (length (ascii ''aaaa bbbbbbbbbb'')) \<and>
   (4::nat) < nat (10 - 1) \<and> ascii ''aaaa bbbbbbbbbb'' ! 4 = 32 \<and>
   trim_to_limit (ascii ''aaaa bbbbbbbbbb'') 10 =
     rstrip (take 4 (ascii ''aaaa bbbbbbbbbb'') @ [ellipsis])"
proof -
  let ?t = "ascii ''aaaa bbbbbbbbbb''"
  have a: "(10::int) < int (length ?t)" by (simp add: ascii_def)
  have k: "(4::nat) < nat (10 - 1)" "?t ! 4 = 32" by (simp_all add: ascii_def)
  have "\<forall>j. 4 < j \<and> j < nat (10 - 1) \<longrightarrow> ?t ! j \<noteq> 32"
  proof (intro allI impI)
    fix j :: nat assume "4 < j \<and> j < nat (10 - 1)"
    then have "j = 5 \<or> j = 6 \<or> j = 7 \<or> j = 8" by auto
    then show "?t ! j \<noteq> 32" by (auto simp: ascii_def)
  qed
  with trim_to_limit_cuts[OF a] k a show ?thesis by blast
qed



text \<open>
  C8. When a run of the queue processor over a task list has ended without an error and
  has written its state file, a second run over the same task list that starts from
  this state file, whatever happens to the tasks it would execute, checks out no
  branch, runs no pipeline, commits nothing, and writes the state file it has loaded.
\<close>

theorem rerun_after_successful_drain:
  assumes "run_queue w run state_file (Some lines) = (events, Inr state_file')"
  shows "run_queue w run' state_file' (Some lines) = ([], Inr state_file')"
proof -
  define P where "P = set (case state_file of None \<Rightarrow> [] | Some ids0 \<Rightarrow> ids0)"
  from assms obtain P' where d: "drain w run 0 lines P = (events, Inr P')"
    and s: "state_file' = Some (sorted_list_of_set P')"
    by (auto simp: run_queue_def P_def Let_def split: prod.splits sum.splits)
  have "finite P" by (cases state_file) (simp_all add: P_def)
  with d have fin: "finite P'" by (rule drain_finite)
  then have roundtrip: "set (sorted_list_of_set P') = P'" by simp
  from drain_rerun[OF d] have sub: "P \<subseteq> P'"
    and again: "drain w run' 0 lines P' = ([], Inr P')" by blast+
  from again roundtrip s show ?thesis
    by (simp add: run_queue_def)
qed

theorem rerun_after_successful_drain_witness:
  "run_queue demo_world all_complete None (Some [ascii ''a'']) =
     ([Checkout (ascii ''a''), RunPipeline (ascii ''a''), Commit (ascii ''a'')],
      Inr (Some [ascii ''a''])) \<and>
   run_queue demo_world all_complete (Some [ascii ''a'']) (Some [ascii ''a'']) =
     ([], Inr (Some [ascii ''a'']))"
proof -
  have first: "run_queue demo_world all_complete None (Some [ascii ''a'']) =
     ([Checkout (ascii ''a''), RunPipeline (ascii ''a''), Commit (ascii ''a'')],
      Inr (Some [ascii ''a'']))"
    by (simp add: run_queue_def demo_world_def all_complete_def ascii_def strip_def
        lstrip_def rstrip_def isspace_def Let_def)
  from rerun_after_successful_drain[OF first, of all_complete] first show ?thesis by simp
qed




text \<open>
  C10. For every input the list of posts that the critic checks has exactly three
  elements, so the count check passes, the message about the count is never part of
  the feedback, and ok is true exactly when every post has at most 280 characters and
  every post is recognised by \<open>has_cta\<close>.
\<close>

theorem count_check_never_fails:
  "length (snd (snd (role_critic udb d))) = 3 \<and>
   (\<forall>n. count_feedback n \<notin> set (fst (snd (role_critic udb d)))) \<and>
   (fst (role_critic udb d) \<longleftrightarrow>
      list_all (\<lambda>p. length p \<le> 280) (snd (snd (role_critic udb d))) \<and>
      list_all (has_cta udb) (snd (snd (role_critic udb d))))"
  using count_feedback_distinct
  by (simp add: critic_posts critic_ok critic_feedback enforce_three_length)

theorem count_check_never_fails_witness:
  "length (snd (snd (role_critic plain_db []))) = 3 \<and>
   count_feedback 0 \<notin> set (fst (snd (role_critic plain_db [])))"
  using count_check_never_fails[of plain_db "[]"] by blast

end
